theory Spec2Isabelle
  imports Main "HOL-Library.Multiset"
begin

section \<open>The identity store of \<open>server-simple.js\<close>\<close>

text \<open>
  The server keeps its users in one global object, \<^verbatim>\<open>const users = {}\<close>, keyed by
  email, and serves six routes under \<^verbatim>\<open>/api/auth\<close>. Each handler is modelled as a
  function from the request (body fields, the Authorization header, the reading of
  \<^verbatim>\<open>Date.now()\<close>) and the store to the response and the store after the call.

  Request fields are JSON values that are strings or \<^verbatim>\<open>null\<close>, or are absent
  (\<^verbatim>\<open>undefined\<close>, here \<open>None\<close>); a character of a \<open>string\<close> stands for one
  code unit of the JavaScript string. On such requests no statement inside the
  handlers' \<^verbatim>\<open>try\<close> blocks throws, so the \<^verbatim>\<open>catch\<close> branches (status 500) are
  never taken and have no counterpart below.
\<close>

subsection \<open>JavaScript values\<close>

datatype jsval = JNull | JStr string

text \<open>Truthiness, as \<^verbatim>\<open>!x\<close> and \<^verbatim>\<open>if (x)\<close> test it.\<close>

fun truthy :: "jsval option \<Rightarrow> bool" where
  "truthy None = False"
| "truthy (Some JNull) = False"
| "truthy (Some (JStr s)) = (s \<noteq> [])"

text \<open>The string a truthy field holds.\<close>

fun str_of :: "jsval option \<Rightarrow> string" where
  "str_of (Some (JStr s)) = s"
| "str_of _ = []"

text \<open>\<^verbatim>\<open>a || b\<close> with \<open>b\<close> defined.\<close>

fun js_or :: "jsval option \<Rightarrow> jsval \<Rightarrow> jsval" where
  "js_or None b = b"
| "js_or (Some v) b = (if truthy (Some v) then v else b)"

text \<open>\<^verbatim>\<open>xs[i]\<close> on an array: \<^verbatim>\<open>undefined\<close> out of range.\<close>

fun js_index :: "'a list \<Rightarrow> nat \<Rightarrow> 'a option" where
  "js_index [] i = None"
| "js_index (x # xs) 0 = Some x"
| "js_index (x # xs) (Suc i) = js_index xs i"

text \<open>\<^verbatim>\<open>xs[i]\<close> where the element exists (the empty string stands in elsewhere).\<close>

definition str_of_index :: "string list \<Rightarrow> nat \<Rightarrow> string" where
  "str_of_index xs i = (case js_index xs i of Some s \<Rightarrow> s | None \<Rightarrow> [])"

text \<open>\<^verbatim>\<open>s.split(c)\<close> for a one-character separator: never an empty array.\<close>

fun split_on :: "char \<Rightarrow> string \<Rightarrow> string list" where
  "split_on c [] = [[]]"
| "split_on c (x # xs) =
     (if x = c then [] # split_on c xs
      else (case split_on c xs of
              w # ws \<Rightarrow> (x # w) # ws
            | [] \<Rightarrow> [[x]]))"

subsection \<open>Decimal rendering: \<^verbatim>\<open>Date.now().toString()\<close>\<close>

definition digit :: "nat \<Rightarrow> char" where
  "digit d = char_of (48 + d)"

function toString :: "nat \<Rightarrow> string" where
  "toString n = (if n < 10 then [digit n] else toString (n div 10) @ [digit (n mod 10)])"
  by pat_completeness auto
termination
  by (relation "measure (\<lambda>n. n)") auto

declare toString.simps [simp del]

definition nat_of_digits :: "string \<Rightarrow> nat" where
  "nat_of_digits s = foldl (\<lambda>a c. 10 * a + (of_char c - 48)) 0 s"

subsection \<open>The \<^verbatim>\<open>users\<close> object\<close>

record user =
  u_id :: string
  u_email :: string
  u_password :: string
  u_name :: jsval
  u_mobileNumber :: "jsval option"
  u_alternativeNumber :: "jsval option"
  u_aadharNumber :: "jsval option"
  u_avatar :: "jsval option"

text \<open>
  The own properties of \<^verbatim>\<open>users\<close>, in creation order. The object is a plain
  \<^verbatim>\<open>{}\<close>, so a read \<^verbatim>\<open>users[k]\<close> of a key that is not an own property falls
  through to \<^verbatim>\<open>Object.prototype\<close>, whose properties are all truthy.
\<close>

type_synonym store = "(string \<times> user) list"

definition object_prototype_keys :: "string list" where
  "object_prototype_keys =
     [''constructor'', ''__defineGetter__'', ''__defineSetter__'', ''hasOwnProperty'',
      ''__lookupGetter__'', ''__lookupSetter__'', ''isPrototypeOf'',
      ''propertyIsEnumerable'', ''toString'', ''valueOf'', ''__proto__'',
      ''toLocaleString'']"

datatype 'a property = Undefined | Inherited | Own 'a

definition users_get :: "store \<Rightarrow> string \<Rightarrow> user property" where
  "users_get us k =
     (case map_of us k of
        Some u \<Rightarrow> Own u
      | None \<Rightarrow> if k \<in> set object_prototype_keys then Inherited else Undefined)"

text \<open>\<^verbatim>\<open>users[k] = v\<close>: an own property keeps its place, a new one goes last.\<close>

definition users_set :: "store \<Rightarrow> string \<Rightarrow> user \<Rightarrow> store" where
  "users_set us k v =
     (if k \<in> fst ` set us
      then map (\<lambda>(k', u). if k' = k then (k', v) else (k', u)) us
      else us @ [(k, v)])"

text \<open>\<^verbatim>\<open>delete users[k]\<close>.\<close>

definition users_delete :: "store \<Rightarrow> string \<Rightarrow> store" where
  "users_delete us k = filter (\<lambda>(k', u). k' \<noteq> k) us"

text \<open>
  The order in which \<^verbatim>\<open>for (const email in users)\<close> visits the own properties:
  array indices (canonical decimal strings below \<open>2^32 - 1\<close>) in ascending numeric
  order, then every other key in creation order.
\<close>

definition is_array_index :: "string \<Rightarrow> bool" where
  "is_array_index s \<longleftrightarrow>
     s \<noteq> [] \<and> list_all (\<lambda>c. c \<in> set ''0123456789'') s
     \<and> (s = ''0'' \<or> hd s \<noteq> CHR ''0'') \<and> nat_of_digits s < 4294967295"

definition for_in :: "store \<Rightarrow> (string \<times> user) list" where
  "for_in us =
     sort_key (\<lambda>(k, u). nat_of_digits k) (filter (\<lambda>(k, u). is_array_index k) us)
     @ filter (\<lambda>(k, u). \<not> is_array_index k) us"

text \<open>
  The lookup loop of \<^verbatim>\<open>/me\<close> and \<^verbatim>\<open>/update-profile\<close>: the first property, in
  \<^verbatim>\<open>for-in\<close> order, whose record has \<^verbatim>\<open>id === userId\<close>. An \<^verbatim>\<open>undefined\<close>
  \<open>userId\<close> equals no id.
\<close>

definition find_user :: "store \<Rightarrow> string option \<Rightarrow> (string \<times> user) option" where
  "find_user us userId = find (\<lambda>(k, u). Some (u_id u) = userId) (for_in us)"

subsection \<open>Requests and responses\<close>

record body =
  b_email :: "jsval option"
  b_password :: "jsval option"
  b_name :: "jsval option"
  b_mobileNumber :: "jsval option"
  b_alternativeNumber :: "jsval option"
  b_aadharNumber :: "jsval option"
  b_avatar :: "jsval option"

record auth_user =
  a_id :: string
  a_email :: string
  a_name :: jsval

record profile =
  p_id :: string
  p_email :: string
  p_name :: jsval
  p_mobileNumber :: jsval
  p_alternativeNumber :: jsval
  p_aadharNumber :: jsval
  p_avatar :: jsval

text \<open>
  \<open>Error status message\<close> is \<^verbatim>\<open>res.status(status).json({success: false, message})\<close>;
  the other constructors are the \<^verbatim>\<open>success: true\<close> bodies of the routes.
\<close>

datatype response =
    Error nat string
  | AuthOk nat string string auth_user
  | ProfileOk profile
  | UpdateOk string profile
  | Ack string

text \<open>\<^verbatim>\<open>req.headers.authorization?.split(' ')[1]\<close>.\<close>

definition auth_token :: "string option \<Rightarrow> string option" where
  "auth_token authorization =
     (case authorization of
        None \<Rightarrow> None
      | Some a \<Rightarrow> js_index (split_on CHR '' '' a) 1)"

text \<open>\<^verbatim>\<open>!token\<close>.\<close>

definition no_token :: "string option \<Rightarrow> bool" where
  "no_token token \<longleftrightarrow> (case token of None \<Rightarrow> True | Some t \<Rightarrow> t = [])"

text \<open>\<^verbatim>\<open>token.split('-')[1]\<close>.\<close>

definition token_user_id :: "string option \<Rightarrow> string option" where
  "token_user_id token =
     (case token of
        None \<Rightarrow> None
      | Some t \<Rightarrow> js_index (split_on CHR ''-'' t) 1)"

definition profile_of :: "user \<Rightarrow> profile" where
  "profile_of user =
     \<lparr>p_id = u_id user, p_email = u_email user, p_name = u_name user,
      p_mobileNumber = js_or (u_mobileNumber user) (JStr []),
      p_alternativeNumber = js_or (u_alternativeNumber user) (JStr []),
      p_aadharNumber = js_or (u_aadharNumber user) (JStr []),
      p_avatar = js_or (u_avatar user) JNull\<rparr>"

subsection \<open>The handlers\<close>

text \<open>\<^verbatim>\<open>POST /api/auth/register\<close>; \<open>now\<close> is the value of \<^verbatim>\<open>Date.now()\<close>.\<close>

definition register :: "nat \<Rightarrow> body \<Rightarrow> store \<Rightarrow> response \<times> store" where
  "register now b us =
     (let email = str_of (b_email b); password = str_of (b_password b) in
      if \<not> truthy (b_email b) \<or> \<not> truthy (b_password b)
        then (Error 400 ''Email and password required'', us)
      else if length password < 6
        then (Error 400 ''Password must be 6+ characters'', us)
      else if users_get us email \<noteq> Undefined
        then (Error 400 ''User already exists'', us)
      else
        let userId = toString now;
            name = js_or (b_name b) (JStr (str_of_index (split_on CHR ''@'' email) 0))
        in (AuthOk 201 ''Registered successfully'' (''token-'' @ userId)
              \<lparr>a_id = userId, a_email = email, a_name = name\<rparr>,
            users_set us email
              \<lparr>u_id = userId, u_email = email, u_password = password, u_name = name,
               u_mobileNumber = None, u_alternativeNumber = None,
               u_aadharNumber = None, u_avatar = None\<rparr>))"

text \<open>
  \<^verbatim>\<open>POST /api/auth/login\<close>. An inherited property has no \<^verbatim>\<open>password\<close>, so
  \<^verbatim>\<open>user.password !== password\<close> holds for it.
\<close>

definition login :: "body \<Rightarrow> store \<Rightarrow> response \<times> store" where
  "login b us =
     (let email = str_of (b_email b); password = str_of (b_password b) in
      if \<not> truthy (b_email b) \<or> \<not> truthy (b_password b)
        then (Error 400 ''Email and password required'', us)
      else
        (case users_get us email of
           Own user \<Rightarrow>
             if u_password user \<noteq> password
               then (Error 401 ''Invalid credentials'', us)
             else (AuthOk 200 ''Login successful'' (''token-'' @ u_id user)
                     \<lparr>a_id = u_id user, a_email = u_email user, a_name = u_name user\<rparr>, us)
         | _ \<Rightarrow> (Error 401 ''Invalid credentials'', us)))"

text \<open>\<^verbatim>\<open>GET /api/auth/me\<close>.\<close>

definition get_me :: "string option \<Rightarrow> store \<Rightarrow> response \<times> store" where
  "get_me authorization us =
     (let token = auth_token authorization in
      if no_token token then (Error 401 ''No token provided'', us)
      else
        (case find_user us (token_user_id token) of
           None \<Rightarrow> (Error 404 ''User not found'', us)
         | Some (email, user) \<Rightarrow> (ProfileOk (profile_of user), us)))"

text \<open>
  \<^verbatim>\<open>POST /api/auth/update-profile\<close>. The handler holds a reference \<^verbatim>\<open>user\<close> to the
  record inside \<^verbatim>\<open>users\<close>, so each assignment to a field of \<^verbatim>\<open>user\<close> is at once
  a change of the store; the model writes the record back under the key it has at that
  point. \<open>set_name\<close> is line 216, \<open>set_fields\<close> lines 229 to 232.
\<close>

definition set_name :: "body \<Rightarrow> user \<Rightarrow> user" where
  "set_name b user =
     (case b_name b of
        None \<Rightarrow> user
      | Some name \<Rightarrow> if truthy (Some name) then user\<lparr>u_name := name\<rparr> else user)"

definition set_fields :: "body \<Rightarrow> user \<Rightarrow> user" where
  "set_fields b user =
     (let user1 = (case b_mobileNumber b of
                     None \<Rightarrow> user | Some v \<Rightarrow> user\<lparr>u_mobileNumber := Some v\<rparr>);
          user2 = (case b_alternativeNumber b of
                     None \<Rightarrow> user1 | Some v \<Rightarrow> user1\<lparr>u_alternativeNumber := Some v\<rparr>);
          user3 = (case b_aadharNumber b of
                     None \<Rightarrow> user2 | Some v \<Rightarrow> user2\<lparr>u_aadharNumber := Some v\<rparr>)
      in (case b_avatar b of
            None \<Rightarrow> user3 | Some v \<Rightarrow> user3\<lparr>u_avatar := Some v\<rparr>))"

definition update_profile :: "string option \<Rightarrow> body \<Rightarrow> store \<Rightarrow> response \<times> store" where
  "update_profile authorization b us =
     (let token = auth_token authorization in
      if no_token token then (Error 401 ''No token provided'', us)
      else
        (case find_user us (token_user_id token) of
           None \<Rightarrow> (Error 404 ''User not found'', us)
         | Some (userEmail, user0) \<Rightarrow>
             let email = str_of (b_email b);
                 user1 = set_name b user0;
                 us1 = users_set us userEmail user1
             in if truthy (b_email b) \<and> email \<noteq> userEmail then
                  (if users_get us1 email \<noteq> Undefined
                     then (Error 400 ''Email already in use'', us1)
                   else
                     let us2 = users_delete (users_set us1 email user1) userEmail;
                         user2 = set_fields b user1
                     in (UpdateOk ''Profile updated successfully'' (profile_of user2),
                         users_set us2 email user2))
                else
                  let user2 = set_fields b user1
                  in (UpdateOk ''Profile updated successfully'' (profile_of user2),
                      users_set us1 userEmail user2)))"

text \<open>\<^verbatim>\<open>POST /api/auth/forgot-password\<close> and \<^verbatim>\<open>POST /api/auth/logout\<close>.\<close>

definition forgot_password :: "body \<Rightarrow> store \<Rightarrow> response \<times> store" where
  "forgot_password b us =
     (if \<not> truthy (b_email b) then (Error 400 ''Email is required'', us)
      else if users_get us (str_of (b_email b)) = Undefined
        then (Error 404 ''User not found'', us)
      else (Ack ''Password reset email sent (demo mode)'', us))"

definition logout :: "store \<Rightarrow> response \<times> store" where
  "logout us = (Ack ''Logged out successfully'', us)"

subsection \<open>Sequences of requests\<close>

datatype request =
    Register nat body
  | Login body
  | GetMe "string option"
  | UpdateProfile "string option" body
  | ForgotPassword body
  | Logout

fun handle :: "request \<Rightarrow> store \<Rightarrow> response \<times> store" where
  "handle (Register now b) us = register now b us"
| "handle (Login b) us = login b us"
| "handle (GetMe h) us = get_me h us"
| "handle (UpdateProfile h b) us = update_profile h b us"
| "handle (ForgotPassword b) us = forgot_password b us"
| "handle Logout us = logout us"

fun run :: "request list \<Rightarrow> store \<Rightarrow> store" where
  "run [] us = us"
| "run (r # rs) us = run rs (snd (handle r us))"

section \<open>Notions the properties are stated with\<close>

text \<open>
  A JavaScript object holds each key once: a list is a store when its keys are distinct.
  Every handler keeps this (\<open>handle_wf\<close> below), and the server starts from \<open>[]\<close>.
\<close>

definition wf_store :: "store \<Rightarrow> bool" where
  "wf_store us \<longleftrightarrow> distinct (map fst us)"

text \<open>The ids of the stored records, with multiplicity, and the keys an id is stored under.\<close>

definition ids :: "store \<Rightarrow> string multiset" where
  "ids us = mset (map (\<lambda>p. u_id (snd p)) us)"

definition unique_ids :: "store \<Rightarrow> bool" where
  "unique_ids us \<longleftrightarrow> distinct (map (\<lambda>p. u_id (snd p)) us)"

definition keys_of_id :: "store \<Rightarrow> string \<Rightarrow> string list" where
  "keys_of_id us i = map fst (filter (\<lambda>(k, u). u_id u = i) us)"

text \<open>The readings of \<^verbatim>\<open>Date.now()\<close> at the registrations of a run.\<close>

fun register_times :: "request list \<Rightarrow> nat list" where
  "register_times [] = []"
| "register_times (Register now b # rs) = now # register_times rs"
| "register_times (r # rs) = register_times rs"

text \<open>The record a successful registration stores (lines 68 to 73).\<close>

definition new_user :: "nat \<Rightarrow> body \<Rightarrow> user" where
  "new_user now b =
     \<lparr>u_id = toString now, u_email = str_of (b_email b), u_password = str_of (b_password b),
      u_name = js_or (b_name b) (JStr (str_of_index (split_on CHR ''@'' (str_of (b_email b))) 0)),
      u_mobileNumber = None, u_alternativeNumber = None,
      u_aadharNumber = None, u_avatar = None\<rparr>"

text \<open>The test of line 217: the request gives an email other than the caller's key.\<close>

definition rekeys :: "body \<Rightarrow> string \<Rightarrow> bool" where
  "rekeys b k \<longleftrightarrow> truthy (b_email b) \<and> str_of (b_email b) \<noteq> k"

subsection \<open>Example requests and stores\<close>

text \<open>
  \<open>two_users\<close> is the store after two registrations at different clock readings,
  \<open>same_tick\<close> the store after two registrations within one millisecond, and
  \<open>three_users\<close> a store in which two users other than the first share an id.
\<close>

definition empty_body :: body where
  "empty_body = \<lparr>b_email = None, b_password = None, b_name = None, b_mobileNumber = None,
     b_alternativeNumber = None, b_aadharNumber = None, b_avatar = None\<rparr>"

definition ann :: body where
  "ann = empty_body\<lparr>b_email := Some (JStr ''a@x.com''), b_password := Some (JStr ''secret1''),
     b_name := Some (JStr ''Ann'')\<rparr>"

definition bob :: body where
  "bob = empty_body\<lparr>b_email := Some (JStr ''b@x.com''), b_password := Some (JStr ''secret2'')\<rparr>"

definition carol :: body where
  "carol = empty_body\<lparr>b_email := Some (JStr ''c@x.com''), b_password := Some (JStr ''secret3'')\<rparr>"

definition ann_user :: user where
  "ann_user = \<lparr>u_id = ''17'', u_email = ''a@x.com'', u_password = ''secret1'',
       u_name = JStr ''Ann'', u_mobileNumber = None, u_alternativeNumber = None,
       u_aadharNumber = None, u_avatar = None\<rparr>"

definition two_users :: store where
  "two_users = run [Register 17 ann, Register 18 bob] []"

definition same_tick :: store where
  "same_tick = run [Register 17 ann, Register 17 bob] []"

definition three_users :: store where
  "three_users = run [Register 17 ann, Register 18 bob, Register 18 carol] []"

definition bearer17 :: "string option" where
  "bearer17 = Some ''Bearer token-17''"

section \<open>Strings, ids and tokens\<close>

lemma split_on_absent: "c \<notin> set s \<Longrightarrow> split_on c s = [s]"
  by (induction s) auto

lemma of_char_digit: "d < 10 \<Longrightarrow> of_char (digit d) = 48 + d"
  by (simp add: digit_def)

lemma toString_digits: "\<forall>c \<in> set (toString n). \<exists>d<10. c = digit d"
proof (induction n rule: toString.induct)
  case (1 n)
  show ?case
  proof (cases "n < 10")
    case True
    have "toString n = [digit n]"
      using True by (subst toString.simps) simp
    with True show ?thesis by auto
  next
    case False
    have eq: "toString n = toString (n div 10) @ [digit (n mod 10)]"
      using False by (subst toString.simps) simp
    have "n mod 10 < 10" by simp
    then have "\<exists>d<10. digit (n mod 10) = digit d" by blast
    with False 1 show ?thesis unfolding eq by simp
  qed
qed

lemma toString_no_dash: "CHR ''-'' \<notin> set (toString n)"
proof
  assume "CHR ''-'' \<in> set (toString n)"
  then obtain d where "d < 10" and "CHR ''-'' = digit d"
    using toString_digits [of n] by blast
  then have "of_char (CHR ''-'') = 48 + d"
    by (simp only: of_char_digit)
  then show False by simp
qed

lemma nat_of_digits_snoc: "nat_of_digits (s @ [c]) = 10 * nat_of_digits s + (of_char c - 48)"
  by (simp add: nat_of_digits_def)

lemma nat_of_digits_toString: "nat_of_digits (toString n) = n"
proof (induction n rule: toString.induct)
  case (1 n)
  show ?case
  proof (cases "n < 10")
    case True
    then show ?thesis
      by (subst toString.simps) (simp add: nat_of_digits_def of_char_digit)
  next
    case False
    with 1 have "nat_of_digits (toString (n div 10)) = n div 10" by simp
    with False show ?thesis
      by (subst toString.simps) (simp add: nat_of_digits_snoc of_char_digit)
  qed
qed

lemma toString_inj: "toString m = toString n \<Longrightarrow> m = n"
  by (metis nat_of_digits_toString)

lemma token_user_id_token: "CHR ''-'' \<notin> set d \<Longrightarrow> token_user_id (Some (''token-'' @ d)) = Some d"
  by (simp add: token_user_id_def split_on_absent)

section \<open>The store operations\<close>

lemma mset_for_in: "mset (for_in us) = mset us"
  by (simp add: for_in_def)

lemma set_for_in: "set (for_in us) = set us"
  using mset_for_in [of us] by (metis set_mset_mset)

lemma find_SomeD: "find P xs = Some x \<Longrightarrow> x \<in> set xs \<and> P x"
  by (induction xs) (auto split: if_splits)

lemma find_user_SomeD:
  assumes "find_user us i = Some (k, u)"
  shows "(k, u) \<in> set us \<and> i = Some (u_id u)"
proof -
  from assms have "(k, u) \<in> set (for_in us) \<and> (\<lambda>(k, u). Some (u_id u) = i) (k, u)"
    unfolding find_user_def by (rule find_SomeD)
  then show ?thesis by (simp add: set_for_in)
qed

lemma find_user_None_iff:
  "find_user us i = None \<longleftrightarrow> (\<forall>(k, u) \<in> set us. Some (u_id u) \<noteq> i)"
  unfolding find_user_def by (auto simp: find_None_iff set_for_in)

lemma find_user_only:
  assumes "(k, u) \<in> set us"
    and "\<forall>p \<in> set us. u_id (snd p) = u_id u \<longrightarrow> p = (k, u)"
  shows "find_user us (Some (u_id u)) = Some (k, u)"
proof (cases "find_user us (Some (u_id u))")
  case None
  with assms(1) show ?thesis by (auto simp: find_user_None_iff)
next
  case (Some p)
  obtain k' u' where p: "p = (k', u')" by (cases p)
  from Some p have "(k', u') \<in> set us" "u_id u' = u_id u"
    by (auto dest: find_user_SomeD)
  with assms(2) have "(k', u') = (k, u)" by fastforce
  with Some p show ?thesis by simp
qed

lemma users_set_absent: "k \<notin> fst ` set us \<Longrightarrow> users_set us k v = us @ [(k, v)]"
  by (simp add: users_set_def)

lemma map_of_replace_other:
  "k' \<noteq> k \<Longrightarrow>
   map_of (map (\<lambda>(k', u). if k' = k then (k', v) else (k', u)) us) k' = map_of us k'"
  by (induction us) auto

lemma map_of_replace_same:
  "k \<in> fst ` set us \<Longrightarrow>
   map_of (map (\<lambda>(k', u). if k' = k then (k', v) else (k', u)) us) k = Some v"
  by (induction us) auto

lemma map_of_users_set: "map_of (users_set us k v) = (map_of us)(k \<mapsto> v)"
proof (cases "k \<in> fst ` set us")
  case True
  then show ?thesis
    by (auto simp: users_set_def fun_eq_iff map_of_replace_other map_of_replace_same)
next
  case False
  then have "map_of us k = None" by (simp add: map_of_eq_None_iff)
  with False show ?thesis
    by (auto simp: users_set_def map_add_def fun_eq_iff split: option.splits)
qed

lemma map_of_users_delete: "map_of (users_delete us k) = (map_of us)(k := None)"
  unfolding users_delete_def by (induction us) auto

lemma keys_users_set: "fst ` set (users_set us k v) = insert k (fst ` set us)"
proof (cases "k \<in> fst ` set us")
  case True
  have "map fst (map (\<lambda>(k', u). if k' = k then (k', v) else (k', u)) us) = map fst us"
    by (induction us) auto
  then have "fst ` set (map (\<lambda>(k', u). if k' = k then (k', v) else (k', u)) us) = fst ` set us"
    by (metis set_map)
  with True show ?thesis by (auto simp: users_set_def)
next
  case False
  then show ?thesis by (simp add: users_set_def)
qed

lemma map_fst_users_set_present:
  assumes "k \<in> fst ` set us"
  shows "map fst (users_set us k v) = map fst us"
proof -
  have "map fst (map (\<lambda>(k', u). if k' = k then (k', v) else (k', u)) us) = map fst us"
    by (induction us) auto
  with assms show ?thesis by (simp add: users_set_def)
qed

lemma wf_users_set: "wf_store us \<Longrightarrow> wf_store (users_set us k v)"
  by (cases "k \<in> fst ` set us")
     (auto simp: wf_store_def map_fst_users_set_present users_set_absent)

lemma wf_users_delete: "wf_store us \<Longrightarrow> wf_store (users_delete us k)"
  by (simp add: wf_store_def users_delete_def distinct_map_filter)

lemma users_set_present:
  "wf_store us \<Longrightarrow> (k, u) \<in> set us \<Longrightarrow>
   mset (users_set us k v) = add_mset (k, v) (mset us - {#(k, u)#})"
proof (induction us)
  case Nil
  then show ?case by simp
next
  case (Cons x us)
  obtain k' u' where x: "x = (k', u')" by (cases x)
  show ?case
  proof (cases "k' = k")
    case True
    with Cons.prems x have "u' = u" and notin: "k \<notin> fst ` set us"
      by (auto simp: wf_store_def image_iff)
    from notin have "map (\<lambda>(k', u). if k' = k then (k', v) else (k', u)) us = us"
      by (induction us) auto
    with True x \<open>u' = u\<close> show ?thesis by (simp add: users_set_def)
  next
    case False
    with Cons.prems x have "wf_store us" "(k, u) \<in> set us"
      by (auto simp: wf_store_def)
    then have IH: "mset (users_set us k v) = add_mset (k, v) (mset us - {#(k, u)#})"
      by (rule Cons.IH)
    from \<open>(k, u) \<in> set us\<close> have "k \<in> fst ` set us" by force
    with IH False x \<open>(k, u) \<in> set us\<close> show ?thesis
      by (auto simp: users_set_def)
  qed
qed

lemma users_delete_present:
  "wf_store us \<Longrightarrow> (k, u) \<in> set us \<Longrightarrow> mset (users_delete us k) = mset us - {#(k, u)#}"
proof (induction us)
  case Nil
  then show ?case by simp
next
  case (Cons x us)
  obtain k' u' where x: "x = (k', u')" by (cases x)
  show ?case
  proof (cases "k' = k")
    case True
    with Cons.prems x have "u' = u" and notin: "k \<notin> fst ` set us"
      by (auto simp: wf_store_def image_iff)
    from notin have "filter (\<lambda>(k', u). k' \<noteq> k) us = us"
      by (induction us) auto
    with True x \<open>u' = u\<close> show ?thesis by (simp add: users_delete_def)
  next
    case False
    with Cons.prems x have "wf_store us" "(k, u) \<in> set us"
      by (auto simp: wf_store_def)
    then have "mset (users_delete us k) = mset us - {#(k, u)#}" by (rule Cons.IH)
    with False x \<open>(k, u) \<in> set us\<close> show ?thesis
      by (auto simp: users_delete_def)
  qed
qed

lemma set_after_replace:
  assumes "wf_store us" and "mset us' = add_mset q (mset us - {#x#})"
  shows "set us' = insert q (set us - {x})"
proof -
  have d: "distinct us"
    using assms(1) by (simp add: wf_store_def distinct_map)
  have "mset us' = mset (q # remove1 x us)"
    using assms(2) by simp
  then have "set us' = set (q # remove1 x us)"
    by (rule mset_eq_setD)
  with d show ?thesis by simp
qed

lemma users_get_Undefined_keys: "users_get us k = Undefined \<Longrightarrow> k \<notin> fst ` set us"
  by (auto simp: users_get_def map_of_eq_None_iff split: option.splits if_splits)

lemma users_get_Undefined_set:
  "users_get (users_set us k v) e = Undefined \<longleftrightarrow> e \<noteq> k \<and> users_get us e = Undefined"
  by (auto simp: users_get_def map_of_users_set split: option.splits if_splits)

lemma length_keys_of_id: "length (keys_of_id us i) = count (ids us) i"
  by (induction us) (auto simp: keys_of_id_def ids_def)

section \<open>The handlers, case by case\<close>

lemma set_name_keeps [simp]:
  "u_id (set_name b u) = u_id u" "u_email (set_name b u) = u_email u"
  "u_password (set_name b u) = u_password u"
  "u_mobileNumber (set_name b u) = u_mobileNumber u"
  "u_alternativeNumber (set_name b u) = u_alternativeNumber u"
  "u_aadharNumber (set_name b u) = u_aadharNumber u"
  "u_avatar (set_name b u) = u_avatar u"
  by (simp_all add: set_name_def split: option.splits)

lemma set_fields_keeps [simp]:
  "u_id (set_fields b u) = u_id u" "u_email (set_fields b u) = u_email u"
  "u_password (set_fields b u) = u_password u" "u_name (set_fields b u) = u_name u"
  by (simp_all add: set_fields_def Let_def split: option.splits)

lemma set_fields_values:
  "u_mobileNumber (set_fields b u) =
     (case b_mobileNumber b of None \<Rightarrow> u_mobileNumber u | Some v \<Rightarrow> Some v)"
  "u_alternativeNumber (set_fields b u) =
     (case b_alternativeNumber b of None \<Rightarrow> u_alternativeNumber u | Some v \<Rightarrow> Some v)"
  "u_aadharNumber (set_fields b u) =
     (case b_aadharNumber b of None \<Rightarrow> u_aadharNumber u | Some v \<Rightarrow> Some v)"
  "u_avatar (set_fields b u) =
     (case b_avatar b of None \<Rightarrow> u_avatar u | Some v \<Rightarrow> Some v)"
  by (simp_all add: set_fields_def Let_def split: option.splits)

lemma set_name_value:
  "u_name (set_name b u) =
     (case b_name b of None \<Rightarrow> u_name u
      | Some v \<Rightarrow> if truthy (Some v) then v else u_name u)"
  by (simp add: set_name_def split: option.splits)

lemma update_profile_found:
  assumes "\<not> no_token (auth_token h)"
    and "find_user us (token_user_id (auth_token h)) = Some (k, u)"
  shows "update_profile h b us =
     (if rekeys b k then
        (if users_get us (str_of (b_email b)) \<noteq> Undefined
           then (Error 400 ''Email already in use'', users_set us k (set_name b u))
         else (UpdateOk ''Profile updated successfully''
                 (profile_of (set_fields b (set_name b u))),
               users_set
                 (users_delete
                    (users_set (users_set us k (set_name b u)) (str_of (b_email b))
                       (set_name b u)) k)
                 (str_of (b_email b)) (set_fields b (set_name b u))))
      else (UpdateOk ''Profile updated successfully''
              (profile_of (set_fields b (set_name b u))),
            users_set (users_set us k (set_name b u)) k (set_fields b (set_name b u))))"
  using assms
  by (simp add: update_profile_def Let_def rekeys_def users_get_Undefined_set)

lemma update_profile_no_token:
  "no_token (auth_token h) \<Longrightarrow> update_profile h b us = (Error 401 ''No token provided'', us)"
  by (simp add: update_profile_def)

lemma update_profile_not_found:
  "\<not> no_token (auth_token h) \<Longrightarrow> find_user us (token_user_id (auth_token h)) = None \<Longrightarrow>
   update_profile h b us = (Error 404 ''User not found'', us)"
  by (simp add: update_profile_def)

lemma mset_same_key:
  assumes "wf_store us" "(k, u) \<in> set us"
  shows "mset (users_set (users_set us k v) k w) = add_mset (k, w) (mset us - {#(k, u)#})"
proof -
  have wf1: "wf_store (users_set us k v)" using assms(1) by (rule wf_users_set)
  have m1: "mset (users_set us k v) = add_mset (k, v) (mset us - {#(k, u)#})"
    using assms by (rule users_set_present)
  then have "(k, v) \<in># mset (users_set us k v)" by simp
  then have "(k, v) \<in> set (users_set us k v)" by simp
  with wf1 have "mset (users_set (users_set us k v) k w)
      = add_mset (k, w) (mset (users_set us k v) - {#(k, v)#})"
    by (rule users_set_present)
  with m1 show ?thesis by simp
qed

lemma mset_rekey:
  assumes "wf_store us" "(k, u) \<in> set us" "e \<notin> fst ` set us"
  shows "mset (users_set (users_delete (users_set (users_set us k v) e v) k) e w)
         = add_mset (e, w) (mset us - {#(k, u)#})"
proof -
  let ?us1 = "users_set us k v"
  let ?us2 = "users_set ?us1 e v"
  let ?us3 = "users_delete ?us2 k"
  have wf1: "wf_store ?us1" using assms(1) by (rule wf_users_set)
  have m1: "mset ?us1 = add_mset (k, v) (mset us - {#(k, u)#})"
    using assms(1,2) by (rule users_set_present)
  have "k \<in> fst ` set us" using assms(2) by force
  with assms(3) have ne: "e \<noteq> k" by blast
  with assms(3) have "e \<notin> fst ` set ?us1"
    by (simp add: keys_users_set)
  then have us2: "?us2 = ?us1 @ [(e, v)]" by (rule users_set_absent)
  have wf2: "wf_store ?us2" using wf1 by (rule wf_users_set)
  have "(k, v) \<in># mset ?us1" using m1 by simp
  then have in2: "(k, v) \<in> set ?us2" using us2 by simp
  have m3: "mset ?us3 = mset ?us2 - {#(k, v)#}"
    using wf2 in2 by (rule users_delete_present)
  have m3': "mset ?us3 = add_mset (e, v) (mset us - {#(k, u)#})"
    using m3 us2 m1 ne by simp
  have wf3: "wf_store ?us3" using wf2 by (rule wf_users_delete)
  have "(e, v) \<in> set ?us3" using m3' by (metis set_mset_mset union_single_eq_member)
  with wf3 have "mset (users_set ?us3 e w) = add_mset (e, w) (mset ?us3 - {#(e, v)#})"
    by (rule users_set_present)
  with m3' show ?thesis by simp
qed

lemma ids_replace:
  assumes "(k, u) \<in> set us" "mset us' = add_mset (k', u') (mset us - {#(k, u)#})"
    "u_id u' = u_id u"
  shows "ids us' = ids us"
proof -
  have "ids us' = image_mset (\<lambda>p. u_id (snd p)) (mset us')"
    by (simp add: ids_def)
  also have "\<dots> = add_mset (u_id u) (image_mset (\<lambda>p. u_id (snd p)) (mset us - {#(k, u)#}))"
    using assms(2,3) by simp
  also have "\<dots> = image_mset (\<lambda>p. u_id (snd p)) (add_mset (k, u) (mset us - {#(k, u)#}))"
    by simp
  also have "add_mset (k, u) (mset us - {#(k, u)#}) = mset us"
    using assms(1) by simp
  finally show ?thesis by (simp add: ids_def)
qed

lemma register_AuthOkD:
  assumes "register now b us = (AuthOk s m t v, us')"
  shows "truthy (b_email b)" "truthy (b_password b)" "6 \<le> length (str_of (b_password b))"
    "users_get us (str_of (b_email b)) = Undefined"
    "s = 201" "t = ''token-'' @ toString now" "a_id v = toString now"
    "a_email v = str_of (b_email b)"
    "us' = us @ [(str_of (b_email b), new_user now b)]"
  using assms
  by (auto simp: register_def Let_def new_user_def users_set_absent
      dest!: users_get_Undefined_keys split: if_splits)

lemma register_store:
  "snd (register now b us) = us \<or>
   snd (register now b us) = us @ [(str_of (b_email b), new_user now b)]
     \<and> str_of (b_email b) \<notin> fst ` set us"
  by (auto simp: register_def Let_def new_user_def users_set_absent
      dest!: users_get_Undefined_keys split: if_splits)

lemma login_store: "snd (login b us) = us"
  by (simp add: login_def Let_def split: property.splits)

lemma get_me_store: "snd (get_me h us) = us"
  by (simp add: get_me_def Let_def split: option.splits prod.splits)

lemma forgot_password_store: "snd (forgot_password b us) = us"
  by (simp add: forgot_password_def)

lemma logout_store: "snd (logout us) = us"
  by (simp add: logout_def)

lemma update_profile_mset:
  assumes "wf_store us" "\<not> no_token (auth_token h)"
    and "find_user us (token_user_id (auth_token h)) = Some (k, u)"
  shows "\<exists>k' u'. mset (snd (update_profile h b us)) = add_mset (k', u') (mset us - {#(k, u)#})
           \<and> u_id u' = u_id u"
proof -
  have mem: "(k, u) \<in> set us" using assms(3) by (auto dest: find_user_SomeD)
  note up = update_profile_found [OF assms(2,3), of b]
  show ?thesis
  proof (cases "rekeys b k")
    case False
    then have "mset (snd (update_profile h b us))
        = add_mset (k, set_fields b (set_name b u)) (mset us - {#(k, u)#})"
      using up mset_same_key [OF assms(1) mem] by simp
    then show ?thesis by (intro exI [of _ k] exI [of _ "set_fields b (set_name b u)"]) simp
  next
    case True
    show ?thesis
    proof (cases "users_get us (str_of (b_email b)) = Undefined")
      case False
      with True have "mset (snd (update_profile h b us))
          = add_mset (k, set_name b u) (mset us - {#(k, u)#})"
        using up users_set_present [OF assms(1) mem] by simp
      then show ?thesis by (intro exI [of _ k] exI [of _ "set_name b u"]) simp
    next
      case Undef: True
      then have "str_of (b_email b) \<notin> fst ` set us" by (rule users_get_Undefined_keys)
      with True Undef have "mset (snd (update_profile h b us))
          = add_mset (str_of (b_email b), set_fields b (set_name b u)) (mset us - {#(k, u)#})"
        using up mset_rekey [OF assms(1) mem] by simp
      then show ?thesis
        by (intro exI [of _ "str_of (b_email b)"] exI [of _ "set_fields b (set_name b u)"]) simp
    qed
  qed
qed

lemma update_profile_wf: "wf_store us \<Longrightarrow> wf_store (snd (update_profile h b us))"
  by (auto simp: update_profile_def Let_def wf_users_set wf_users_delete
      split: option.splits prod.splits)

lemma update_profile_ids:
  assumes "wf_store us"
  shows "ids (snd (update_profile h b us)) = ids us"
proof (cases "no_token (auth_token h)")
  case True
  then show ?thesis by (simp add: update_profile_no_token)
next
  case False
  show ?thesis
  proof (cases "find_user us (token_user_id (auth_token h))")
    case None
    with False show ?thesis by (simp add: update_profile_not_found)
  next
    case (Some p)
    obtain k u where p: "p = (k, u)" by (cases p)
    with Some have f: "find_user us (token_user_id (auth_token h)) = Some (k, u)" by simp
    then have mem: "(k, u) \<in> set us" by (auto dest: find_user_SomeD)
    from update_profile_mset [OF assms False f, of b] obtain k' u'
      where "mset (snd (update_profile h b us)) = add_mset (k', u') (mset us - {#(k, u)#})"
        and "u_id u' = u_id u" by blast
    with mem show ?thesis by (rule ids_replace)
  qed
qed

lemma update_profile_length:
  assumes "wf_store us"
  shows "length (snd (update_profile h b us)) = length us"
proof (cases "no_token (auth_token h)")
  case True
  then show ?thesis by (simp add: update_profile_no_token)
next
  case False
  show ?thesis
  proof (cases "find_user us (token_user_id (auth_token h))")
    case None
    with False show ?thesis by (simp add: update_profile_not_found)
  next
    case (Some p)
    obtain k u where p: "p = (k, u)" by (cases p)
    with Some have f: "find_user us (token_user_id (auth_token h)) = Some (k, u)" by simp
    then have mem: "(k, u) \<in> set us" by (auto dest: find_user_SomeD)
    from update_profile_mset [OF assms False f, of b] obtain k' u'
      where m: "mset (snd (update_profile h b us)) = add_mset (k', u') (mset us - {#(k, u)#})"
      by blast
    have "add_mset (k, u) (mset us - {#(k, u)#}) = mset us"
      using mem by simp
    then have "size (mset us) = Suc (size (mset us - {#(k, u)#}))"
      by (metis size_add_mset)
    moreover have "size (mset (snd (update_profile h b us))) = Suc (size (mset us - {#(k, u)#}))"
      unfolding m by simp
    ultimately show ?thesis by (metis size_mset)
  qed
qed

lemma get_me_not_found_iff:
  "\<not> no_token (auth_token h) \<Longrightarrow>
   fst (get_me h us) = Error 404 ''User not found''
   \<longleftrightarrow> find_user us (token_user_id (auth_token h)) = None"
  by (auto simp: get_me_def Let_def split: option.splits)

lemma update_profile_not_found_iff:
  assumes "\<not> no_token (auth_token h)"
  shows "fst (update_profile h b us) = Error 404 ''User not found''
   \<longleftrightarrow> find_user us (token_user_id (auth_token h)) = None"
proof (cases "find_user us (token_user_id (auth_token h))")
  case None
  with assms show ?thesis by (simp add: update_profile_not_found)
next
  case (Some p)
  obtain k u where "p = (k, u)" by (cases p)
  with Some have "find_user us (token_user_id (auth_token h)) = Some (k, u)" by simp
  from update_profile_found [OF assms this, of b] Some show ?thesis by simp
qed

lemma get_me_not_401:
  "\<not> no_token (auth_token h) \<Longrightarrow> fst (get_me h us) \<noteq> Error 401 m"
  by (auto simp: get_me_def Let_def split: option.splits)

lemma update_profile_not_401:
  assumes "\<not> no_token (auth_token h)"
  shows "fst (update_profile h b us) \<noteq> Error 401 m"
proof (cases "find_user us (token_user_id (auth_token h))")
  case None
  with assms show ?thesis by (simp add: update_profile_not_found)
next
  case (Some p)
  obtain k u where "p = (k, u)" by (cases p)
  with Some have "find_user us (token_user_id (auth_token h)) = Some (k, u)" by simp
  from update_profile_found [OF assms this, of b] show ?thesis by simp
qed

section \<open>Runs of requests\<close>

lemma handle_wf: "wf_store us \<Longrightarrow> wf_store (snd (handle r us))"
proof (cases r)
  case (Register now b)
  assume "wf_store us"
  with register_store [of now b us] Register show ?thesis
    by (auto simp: wf_store_def)
qed (simp_all add: login_store get_me_store forgot_password_store logout_store update_profile_wf)

lemma handle_ids:
  assumes "wf_store us"
  shows "ids (snd (handle r us)) = ids us \<or>
         (\<exists>now b. r = Register now b \<and> ids (snd (handle r us)) = add_mset (toString now) (ids us))"
proof (cases r)
  case (Register now b)
  with register_store [of now b us] show ?thesis
    by (auto simp: ids_def new_user_def)
qed (simp_all add: login_store get_me_store forgot_password_store logout_store
      update_profile_ids assms)

lemma run_wf: "wf_store us \<Longrightarrow> wf_store (run rs us)"
  by (induction rs arbitrary: us) (simp_all add: handle_wf)

lemma run_ids_mono: "wf_store us \<Longrightarrow> ids us \<subseteq># ids (run rs us)"
proof (induction rs arbitrary: us)
  case Nil
  then show ?case by simp
next
  case (Cons r rs)
  have "ids us \<subseteq># ids (snd (handle r us))"
    using handle_ids [OF Cons.prems, of r] by auto
  also have "\<dots> \<subseteq># ids (run rs (snd (handle r us)))"
    using Cons.prems by (intro Cons.IH handle_wf)
  finally show ?case by simp
qed

lemma run_ids_origin:
  "wf_store us \<Longrightarrow> i \<in># ids (run rs us) \<Longrightarrow>
   i \<in># ids us \<or> i \<in> toString ` set (register_times rs)"
proof (induction rs arbitrary: us)
  case Nil
  then show ?case by simp
next
  case (Cons r rs)
  have wf: "wf_store (snd (handle r us))" using Cons.prems(1) by (rule handle_wf)
  from Cons.prems(2) have "i \<in># ids (run rs (snd (handle r us)))" by simp
  with wf have "i \<in># ids (snd (handle r us)) \<or> i \<in> toString ` set (register_times rs)"
    by (rule Cons.IH)
  then show ?case
  proof
    assume "i \<in># ids (snd (handle r us))"
    with handle_ids [OF Cons.prems(1), of r] show ?thesis
      by (cases r) auto
  next
    assume "i \<in> toString ` set (register_times rs)"
    then show ?thesis by (cases r) auto
  qed
qed

text \<open>The two example stores, written out.\<close>

lemma two_users_eq: "two_users =
  [(''a@x.com'', \<lparr>u_id = ''17'', u_email = ''a@x.com'', u_password = ''secret1'',
       u_name = JStr ''Ann'', u_mobileNumber = None, u_alternativeNumber = None,
       u_aadharNumber = None, u_avatar = None\<rparr>),
   (''b@x.com'', \<lparr>u_id = ''18'', u_email = ''b@x.com'', u_password = ''secret2'',
       u_name = JStr ''b'', u_mobileNumber = None, u_alternativeNumber = None,
       u_aadharNumber = None, u_avatar = None\<rparr>)]"
  by code_simp

lemma same_tick_eq: "same_tick =
  [(''a@x.com'', \<lparr>u_id = ''17'', u_email = ''a@x.com'', u_password = ''secret1'',
       u_name = JStr ''Ann'', u_mobileNumber = None, u_alternativeNumber = None,
       u_aadharNumber = None, u_avatar = None\<rparr>),
   (''b@x.com'', \<lparr>u_id = ''17'', u_email = ''b@x.com'', u_password = ''secret2'',
       u_name = JStr ''b'', u_mobileNumber = None, u_alternativeNumber = None,
       u_aadharNumber = None, u_avatar = None\<rparr>)]"
  by code_simp

section \<open>The claims\<close>

subsection \<open>C1: an email conflict in update-profile\<close>

text \<open>
  Claim C1: an \<open>update_profile\<close> whose request changes the email to one already used
  by a different user fails with the conflict response and leaves both records as they
  were, the caller's name included.

  The handler assigns \<^verbatim>\<open>user.name\<close> (line 216) before it looks the new email up
  (line 219). In \<open>two_users\<close>, the request of the user with id 17 for the name
  \<open>Zed\<close> and the email of the other user is answered with status 400,
  \<open>Email already in use\<close>, and the store it leaves holds the caller under the name
  \<open>Zed\<close>: the rejected request has changed the caller's record.
\<close>

theorem conflict_after_name_change:
  "update_profile bearer17
     (empty_body\<lparr>b_email := Some (JStr ''b@x.com''), b_name := Some (JStr ''Zed'')\<rparr>) two_users
   = (Error 400 ''Email already in use'',
      users_set two_users ''a@x.com'' (ann_user\<lparr>u_name := JStr ''Zed''\<rparr>))
   \<and> users_get two_users ''a@x.com'' = Own ann_user
   \<and> u_name ann_user = JStr ''Ann''
   \<and> users_get (users_set two_users ''a@x.com'' (ann_user\<lparr>u_name := JStr ''Zed''\<rparr>))
        ''a@x.com'' = Own (ann_user\<lparr>u_name := JStr ''Zed''\<rparr>)
   \<and> users_get (users_set two_users ''a@x.com'' (ann_user\<lparr>u_name := JStr ''Zed''\<rparr>))
        ''b@x.com'' = users_get two_users ''b@x.com''"
  by code_simp

subsection \<open>C2: the profile after a change of email\<close>

text \<open>
  Claim C2: after a successful \<open>update_profile\<close> that changes the email to an unused
  value, the profile read with the same token shows the new email.

  The handler moves the record to the new key (lines 226 and 227) and never assigns
  \<^verbatim>\<open>user.email\<close>. After the user registered as \<open>a@x.com\<close> has changed the
  email to \<open>b@x.com\<close>, the store holds the record under the key \<open>b@x.com\<close>, and
  both the answer of the update and the profile read with the same token still show
  \<open>a@x.com\<close>.
\<close>

theorem profile_email_after_rekey:
  "fst (update_profile bearer17 (empty_body\<lparr>b_email := Some (JStr ''b@x.com'')\<rparr>)
         (run [Register 17 ann] []))
   = UpdateOk ''Profile updated successfully''
       \<lparr>p_id = ''17'', p_email = ''a@x.com'', p_name = JStr ''Ann'', p_mobileNumber = JStr [],
        p_alternativeNumber = JStr [], p_aadharNumber = JStr [], p_avatar = JNull\<rparr>
   \<and> fst (get_me bearer17
         (snd (update_profile bearer17 (empty_body\<lparr>b_email := Some (JStr ''b@x.com'')\<rparr>)
            (run [Register 17 ann] []))))
   = ProfileOk
       \<lparr>p_id = ''17'', p_email = ''a@x.com'', p_name = JStr ''Ann'', p_mobileNumber = JStr [],
        p_alternativeNumber = JStr [], p_aadharNumber = JStr [], p_avatar = JNull\<rparr>
   \<and> map fst (snd (update_profile bearer17 (empty_body\<lparr>b_email := Some (JStr ''b@x.com'')\<rparr>)
            (run [Register 17 ann] []))) = [''b@x.com'']"
  by code_simp

text \<open>
  This holds of every successful update: the email the answer shows is the email field
  the caller's record had before the request.
\<close>

lemma update_profile_email_field:
  assumes "update_profile h b us = (UpdateOk m p, us')"
    and "find_user us (token_user_id (auth_token h)) = Some (k, u)"
  shows "p_email p = u_email u"
proof -
  have tok: "\<not> no_token (auth_token h)"
    using assms(1) by (auto simp: update_profile_no_token)
  from update_profile_found [OF tok assms(2), of b] assms(1)
  have "p = profile_of (set_fields b (set_name b u))"
    by (auto split: if_splits)
  then show ?thesis by (simp add: profile_of_def)
qed

subsection \<open>C3: identity across a change of email\<close>

text \<open>
  Claim C3, as amended: a successful \<open>update_profile\<close> that changes the email to an
  unused value keeps the caller's id, password and every profile field whose key the
  request does not carry, and the record is then an own property under the new key and
  no longer under the old one; and, provided no other stored record has the caller's
  id, the token of the request still resolves to that record under its new key.
  The store is an object: its keys are distinct.
\<close>

theorem rekey_keeps_identity:
  assumes "wf_store us"
    and "update_profile h b us = (UpdateOk m p, us')"
    and "find_user us (token_user_id (auth_token h)) = Some (k, u)"
    and "truthy (b_email b)" and "str_of (b_email b) \<noteq> k"
  shows "\<exists>u'. users_get us' (str_of (b_email b)) = Own u'
      \<and> (\<forall>v. users_get us' k \<noteq> Own v)
      \<and> u_id u' = u_id u
      \<and> u_password u' = u_password u
      \<and> (b_name b = None \<longrightarrow> u_name u' = u_name u)
      \<and> (b_mobileNumber b = None \<longrightarrow> u_mobileNumber u' = u_mobileNumber u)
      \<and> (b_alternativeNumber b = None \<longrightarrow> u_alternativeNumber u' = u_alternativeNumber u)
      \<and> (b_aadharNumber b = None \<longrightarrow> u_aadharNumber u' = u_aadharNumber u)
      \<and> (b_avatar b = None \<longrightarrow> u_avatar u' = u_avatar u)
      \<and> ((\<forall>q \<in> set us. u_id (snd q) = u_id u \<longrightarrow> q = (k, u)) \<longrightarrow>
           find_user us' (token_user_id (auth_token h)) = Some (str_of (b_email b), u'))"
proof -
  let ?e = "str_of (b_email b)"
  let ?u1 = "set_name b u"
  let ?u' = "set_fields b ?u1"
  have tok: "\<not> no_token (auth_token h)"
    using assms(2) by (auto simp: update_profile_no_token)
  have rk: "rekeys b k" using assms(4,5) by (simp add: rekeys_def)
  have mem: "(k, u) \<in> set us" and tid: "token_user_id (auth_token h) = Some (u_id u)"
    using assms(3) by (auto dest: find_user_SomeD)
  from update_profile_found [OF tok assms(3), of b] assms(2) rk
  have undef: "users_get us ?e = Undefined"
    and us': "us' = users_set (users_delete (users_set (users_set us k ?u1) ?e ?u1) k) ?e ?u'"
    by (auto split: if_splits)
  have notin: "?e \<notin> fst ` set us" using undef by (rule users_get_Undefined_keys)
  have m: "mset us' = add_mset (?e, ?u') (mset us - {#(k, u)#})"
    unfolding us' using assms(1) mem notin by (rule mset_rekey)
  have set': "set us' = insert (?e, ?u') (set us - {(k, u)})"
    using assms(1) m by (rule set_after_replace)
  have f: "find_user us' (token_user_id (auth_token h)) = Some (?e, ?u')"
    if only: "\<forall>q \<in> set us. u_id (snd q) = u_id u \<longrightarrow> q = (k, u)"
  proof -
    have mem': "(?e, ?u') \<in> set us'" using set' by simp
    have "\<forall>q \<in> set us'. u_id (snd q) = u_id ?u' \<longrightarrow> q = (?e, ?u')"
      using only set' by auto
    with mem' have "find_user us' (Some (u_id ?u')) = Some (?e, ?u')"
      by (rule find_user_only)
    then show ?thesis using tid by simp
  qed
  have mo: "map_of us' = ((map_of (users_set (users_set us k ?u1) ?e ?u1))(k := None))(?e \<mapsto> ?u')"
    unfolding us' by (simp add: map_of_users_set map_of_users_delete)
  have new: "users_get us' ?e = Own ?u'"
    by (simp add: users_get_def mo)
  have "map_of us' k = None"
    using assms(5) by (simp add: mo)
  then have old: "\<forall>v. users_get us' k \<noteq> Own v"
    by (simp add: users_get_def)
  have "users_get us' ?e = Own ?u'
      \<and> (\<forall>v. users_get us' k \<noteq> Own v)
      \<and> u_id ?u' = u_id u
      \<and> u_password ?u' = u_password u
      \<and> (b_name b = None \<longrightarrow> u_name ?u' = u_name u)
      \<and> (b_mobileNumber b = None \<longrightarrow> u_mobileNumber ?u' = u_mobileNumber u)
      \<and> (b_alternativeNumber b = None \<longrightarrow> u_alternativeNumber ?u' = u_alternativeNumber u)
      \<and> (b_aadharNumber b = None \<longrightarrow> u_aadharNumber ?u' = u_aadharNumber u)
      \<and> (b_avatar b = None \<longrightarrow> u_avatar ?u' = u_avatar u)
      \<and> ((\<forall>q \<in> set us. u_id (snd q) = u_id u \<longrightarrow> q = (k, u)) \<longrightarrow>
           find_user us' (token_user_id (auth_token h)) = Some (?e, ?u'))"
    using f new old
    by (simp add: set_fields_values set_name_value split: option.splits)
  then show ?thesis by (rule exI)
qed

text \<open>
  The theorem at the store \<open>three_users\<close>, where two other users share the id 18:
  user 17 moves from \<open>a@x.com\<close> to \<open>d@x.com\<close> and the token still resolves to it.
\<close>

theorem rekey_keeps_identity_witness:
  "wf_store three_users \<and> \<not> unique_ids three_users
   \<and> fst (update_profile bearer17 (empty_body\<lparr>b_email := Some (JStr ''d@x.com'')\<rparr>) three_users)
     = UpdateOk ''Profile updated successfully'' (profile_of ann_user)
   \<and> find_user three_users (token_user_id (auth_token bearer17)) = Some (''a@x.com'', ann_user)
   \<and> (\<exists>u'. users_get
          (snd (update_profile bearer17 (empty_body\<lparr>b_email := Some (JStr ''d@x.com'')\<rparr>)
             three_users)) ''d@x.com'' = Own u'
        \<and> u_id u' = ''17'' \<and> u_password u' = ''secret1'' \<and> u_name u' = JStr ''Ann''
        \<and> u_mobileNumber u' = None
        \<and> find_user
          (snd (update_profile bearer17 (empty_body\<lparr>b_email := Some (JStr ''d@x.com'')\<rparr>)
             three_users))
          (token_user_id (auth_token bearer17)) = Some (''d@x.com'', u'))"
proof -
  let ?b = "empty_body\<lparr>b_email := Some (JStr ''d@x.com'')\<rparr>"
  let ?us' = "snd (update_profile bearer17 ?b three_users)"
  have h1: "wf_store three_users" by code_simp
  have n: "\<not> unique_ids three_users" by code_simp
  have r: "fst (update_profile bearer17 ?b three_users)
     = UpdateOk ''Profile updated successfully'' (profile_of ann_user)"
    by code_simp
  then have h2: "update_profile bearer17 ?b three_users
     = (UpdateOk ''Profile updated successfully'' (profile_of ann_user), ?us')"
    by (simp add: prod_eq_iff)
  have h3: "find_user three_users (token_user_id (auth_token bearer17))
      = Some (''a@x.com'', ann_user)"
    by code_simp
  have h4: "truthy (b_email ?b)" and h5: "str_of (b_email ?b) \<noteq> ''a@x.com''"
    by (simp_all add: empty_body_def)
  have h6: "\<forall>q \<in> set three_users. u_id (snd q) = u_id ann_user \<longrightarrow> q = (''a@x.com'', ann_user)"
    by code_simp
  have e: "str_of (b_email ?b) = ''d@x.com''" "b_name ?b = None" "b_mobileNumber ?b = None"
    by (simp_all add: empty_body_def)
  have a: "u_id ann_user = ''17''" "u_password ann_user = ''secret1''"
    "u_name ann_user = JStr ''Ann''" "u_mobileNumber ann_user = None"
    by (simp_all add: ann_user_def)
  from rekey_keeps_identity [OF h1 h2 h3 h4 h5] h6 e a
  have "\<exists>u'. users_get ?us' ''d@x.com'' = Own u'
        \<and> u_id u' = ''17'' \<and> u_password u' = ''secret1'' \<and> u_name u' = JStr ''Ann''
        \<and> u_mobileNumber u' = None
        \<and> find_user ?us' (token_user_id (auth_token bearer17)) = Some (''d@x.com'', u')"
    by (elim exE conjE) (rule exI, simp)
  with h1 n r h3 show ?thesis by (intro conjI)
qed

text \<open>
  Without the proviso the last part of C3 fails. Two registrations that read the same
  \<^verbatim>\<open>Date.now()\<close> get the same id. In \<open>same_tick\<close> the token \<open>token-17\<close>
  resolves to the record under \<open>a@x.com\<close>, the first in \<^verbatim>\<open>for-in\<close> order; the
  change of email to \<open>c@x.com\<close> succeeds and puts that record last, and the same
  token then resolves to the record under \<open>b@x.com\<close>.
\<close>

theorem rekey_same_tick_counterexample:
  "fst (update_profile bearer17 (empty_body\<lparr>b_email := Some (JStr ''c@x.com'')\<rparr>) same_tick)
   = UpdateOk ''Profile updated successfully''
       \<lparr>p_id = ''17'', p_email = ''a@x.com'', p_name = JStr ''Ann'', p_mobileNumber = JStr [],
        p_alternativeNumber = JStr [], p_aadharNumber = JStr [], p_avatar = JNull\<rparr>
   \<and> map_option fst (find_user same_tick (token_user_id (auth_token bearer17))) = Some ''a@x.com''
   \<and> map fst (snd (update_profile bearer17 (empty_body\<lparr>b_email := Some (JStr ''c@x.com'')\<rparr>)
        same_tick)) = [''b@x.com'', ''c@x.com'']
   \<and> map_option fst (find_user
        (snd (update_profile bearer17 (empty_body\<lparr>b_email := Some (JStr ''c@x.com'')\<rparr>)
           same_tick))
        (token_user_id (auth_token bearer17))) \<noteq> Some ''c@x.com''"
  by code_simp

subsection \<open>C4: the rejections of register\<close>

text \<open>
  Claim C4, as amended: \<open>register\<close> answers 400 \<open>Email and password required\<close>
  when the email or the password is missing (absent, \<^verbatim>\<open>null\<close> or empty); a
  password shorter than 6 is answered by one of the two validation responses; a request
  for an email that is a key of the store is answered 400 \<open>User already exists\<close>
  when it passes both validations (both fields present, password of length at least
  6), and with status 400 in any case; and every error response leaves the store as it
  was.
\<close>

theorem register_rejections:
  "(\<not> truthy (b_email b) \<or> \<not> truthy (b_password b) \<longrightarrow>
      register now b us = (Error 400 ''Email and password required'', us))
   \<and> (length (str_of (b_password b)) < 6 \<longrightarrow>
      register now b us = (Error 400 ''Email and password required'', us)
      \<or> register now b us = (Error 400 ''Password must be 6+ characters'', us))
   \<and> (truthy (b_email b) \<and> truthy (b_password b) \<and> 6 \<le> length (str_of (b_password b))
        \<and> users_get us (str_of (b_email b)) = Own u \<longrightarrow>
      register now b us = (Error 400 ''User already exists'', us))
   \<and> (users_get us (str_of (b_email b)) = Own u \<longrightarrow>
      (\<exists>m'. register now b us = (Error 400 m', us)))
   \<and> (fst (register now b us) = Error s m \<longrightarrow> snd (register now b us) = us)"
proof (intro conjI impI)
  assume "\<not> truthy (b_email b) \<or> \<not> truthy (b_password b)"
  then show "register now b us = (Error 400 ''Email and password required'', us)"
    by (auto simp add: register_def Let_def)
next
  assume "length (str_of (b_password b)) < 6"
  then show "register now b us = (Error 400 ''Email and password required'', us)
      \<or> register now b us = (Error 400 ''Password must be 6+ characters'', us)"
    by (simp add: register_def Let_def)
next
  assume "truthy (b_email b) \<and> truthy (b_password b) \<and> 6 \<le> length (str_of (b_password b))
        \<and> users_get us (str_of (b_email b)) = Own u"
  then show "register now b us = (Error 400 ''User already exists'', us)"
    by (simp add: register_def Let_def)
next
  assume "users_get us (str_of (b_email b)) = Own u"
  then show "\<exists>m'. register now b us = (Error 400 m', us)"
    by (simp add: register_def Let_def)
next
  assume "fst (register now b us) = Error s m"
  then show "snd (register now b us) = us"
    by (auto simp add: register_def Let_def split: if_splits)
qed

text \<open>The theorem at three requests to \<open>two_users\<close>, one for each rejection.\<close>

theorem register_rejections_witness:
  "register 19 (empty_body\<lparr>b_password := Some (JStr ''secret1'')\<rparr>) two_users
     = (Error 400 ''Email and password required'', two_users)
   \<and> register 19 (empty_body\<lparr>b_email := Some (JStr ''c@x.com''), b_password := Some (JStr ''abc'')\<rparr>)
       two_users = (Error 400 ''Password must be 6+ characters'', two_users)
   \<and> register 19 ann two_users = (Error 400 ''User already exists'', two_users)
   \<and> snd (register 19 ann two_users) = two_users"
proof -
  let ?b1 = "empty_body\<lparr>b_password := Some (JStr ''secret1'')\<rparr>"
  let ?b2 = "empty_body\<lparr>b_email := Some (JStr ''c@x.com''), b_password := Some (JStr ''abc'')\<rparr>"
  have h1: "\<not> truthy (b_email ?b1) \<or> \<not> truthy (b_password ?b1)"
    by (simp add: empty_body_def)
  have h2: "length (str_of (b_password ?b2)) < 6"
    by (simp add: empty_body_def)
  have n2: "register 19 ?b2 two_users \<noteq> (Error 400 ''Email and password required'', two_users)"
    by code_simp
  have h3: "truthy (b_email ann) \<and> truthy (b_password ann) \<and> 6 \<le> length (str_of (b_password ann))
        \<and> users_get two_users (str_of (b_email ann)) = Own ann_user"
    by code_simp
  have h4: "fst (register 19 ann two_users) = Error 400 ''User already exists''"
    by code_simp
  note c1 = register_rejections [of "?b1" 19 two_users ann_user 400 "''User already exists''",
      THEN conjunct1, THEN mp, OF h1]
  note d2 = register_rejections [of "?b2" 19 two_users ann_user 400 "''User already exists''",
      THEN conjunct2, THEN conjunct1, THEN mp, OF h2]
  note c3 = register_rejections [of ann 19 two_users ann_user 400 "''User already exists''",
      THEN conjunct2, THEN conjunct2, THEN conjunct1, THEN mp, OF h3]
  note c4 = register_rejections [of ann 19 two_users ann_user 400 "''User already exists''",
      THEN conjunct2, THEN conjunct2, THEN conjunct2, THEN conjunct2, THEN mp, OF h4]
  from d2 n2 have c2: "register 19 ?b2 two_users
      = (Error 400 ''Password must be 6+ characters'', two_users)"
    by blast
  from c1 c2 c3 c4 show ?thesis by (intro conjI)
qed

text \<open>
  The handler tests the password (lines 53 to 58) before it looks the email up (line 60):
  a request for the email of a stored user with the password \<open>abc\<close> is answered
  \<open>Password must be 6+ characters\<close>, not \<open>User already exists\<close>.
\<close>

theorem register_conflict_order_counterexample:
  "users_get two_users ''a@x.com'' = Own ann_user
   \<and> register 19 (ann\<lparr>b_password := Some (JStr ''abc'')\<rparr>) two_users
       = (Error 400 ''Password must be 6+ characters'', two_users)
   \<and> fst (register 19 (ann\<lparr>b_password := Some (JStr ''abc'')\<rparr>) two_users)
       \<noteq> Error 400 ''User already exists''"
  by code_simp

subsection \<open>C5: fresh ids\<close>

text \<open>
  Claim C5, as amended: two successful registrations whose readings of
  \<^verbatim>\<open>Date.now()\<close> differ get different ids; and after any run of requests from the
  empty store, a successful registration whose clock reading differs from the readings
  of all registrations of the run gets an id that no stored record has.
\<close>

theorem fresh_id_distinct_clock:
  "(register t1 b1 us1 = (AuthOk s1 m1 k1 v1, us1')
      \<and> register t2 b2 us2 = (AuthOk s2 m2 k2 v2, us2') \<and> t1 \<noteq> t2
      \<longrightarrow> a_id v1 \<noteq> a_id v2)
   \<and> (register now b (run rs []) = (AuthOk s m k v, us') \<and> now \<notin> set (register_times rs)
      \<longrightarrow> a_id v \<notin># ids (run rs []) \<and> ids us' = add_mset (a_id v) (ids (run rs [])))"
proof (intro conjI impI; elim conjE)
  assume "register t1 b1 us1 = (AuthOk s1 m1 k1 v1, us1')"
    and "register t2 b2 us2 = (AuthOk s2 m2 k2 v2, us2')" and "t1 \<noteq> t2"
  then show "a_id v1 \<noteq> a_id v2"
    by (auto dest!: register_AuthOkD(7) toString_inj)
next
  assume r: "register now b (run rs []) = (AuthOk s m k v, us')"
    and n: "now \<notin> set (register_times rs)"
  have wf: "wf_store []" by (simp add: wf_store_def)
  show "a_id v \<notin># ids (run rs [])"
  proof
    assume "a_id v \<in># ids (run rs [])"
    with wf have "a_id v \<in># ids [] \<or> a_id v \<in> toString ` set (register_times rs)"
      by (rule run_ids_origin)
    then obtain t where "t \<in> set (register_times rs)" "toString now = toString t"
      using register_AuthOkD(7) [OF r] by (auto simp: ids_def)
    with n show False by (auto dest: toString_inj)
  qed
next
  assume r: "register now b (run rs []) = (AuthOk s m k v, us')"
  show "ids us' = add_mset (a_id v) (ids (run rs []))"
    using register_AuthOkD(7,9) [OF r] by (simp add: ids_def new_user_def)
qed

text \<open>The theorem at the registrations of \<open>ann\<close> at 17 and \<open>bob\<close> at 18.\<close>

theorem fresh_id_distinct_clock_witness:
  "fst (register 17 ann []) = AuthOk 201 ''Registered successfully'' ''token-17''
       \<lparr>a_id = ''17'', a_email = ''a@x.com'', a_name = JStr ''Ann''\<rparr>
   \<and> fst (register 18 bob (run [Register 17 ann] [])) =
       AuthOk 201 ''Registered successfully'' ''token-18''
         \<lparr>a_id = ''18'', a_email = ''b@x.com'', a_name = JStr ''b''\<rparr>
   \<and> 18 \<notin> set (register_times [Register 17 ann])
   \<and> ''18'' \<notin># ids (run [Register 17 ann] [])
   \<and> ''17'' \<noteq> ''18''"
proof -
  let ?v1 = "\<lparr>a_id = ''17'', a_email = ''a@x.com'', a_name = JStr ''Ann''\<rparr>"
  let ?v2 = "\<lparr>a_id = ''18'', a_email = ''b@x.com'', a_name = JStr ''b''\<rparr>"
  have h1: "register 17 ann [] =
     (AuthOk 201 ''Registered successfully'' ''token-17'' ?v1, run [Register 17 ann] [])"
    by code_simp
  have h2: "register 18 bob (run [Register 17 ann] []) =
     (AuthOk 201 ''Registered successfully'' ''token-18'' ?v2, two_users)"
    by code_simp
  have h3: "(17::nat) \<noteq> 18" by simp
  have h4: "18 \<notin> set (register_times [Register 17 ann])" by simp
  have c1: "fst (register 17 ann []) =
      AuthOk 201 ''Registered successfully'' ''token-17'' ?v1"
    unfolding h1 by simp
  have c2: "fst (register 18 bob (run [Register 17 ann] [])) =
      AuthOk 201 ''Registered successfully'' ''token-18'' ?v2"
    unfolding h2 by simp
  have "a_id ?v1 \<noteq> a_id ?v2 \<and> a_id ?v2 \<notin># ids (run [Register 17 ann] [])"
    using h1 h2 h3 h4
      fresh_id_distinct_clock [of 17 ann "[]" 201 "''Registered successfully''" "''token-17''"
        ?v1 "run [Register 17 ann] []" 18 bob "run [Register 17 ann] []" 201
        "''Registered successfully''" "''token-18''" ?v2 two_users
        18 bob "[Register 17 ann]" 201 "''Registered successfully''" "''token-18''" ?v2 two_users]
    by blast
  with c1 c2 h4 show ?thesis by simp
qed

text \<open>
  The id is the clock reading and nothing else: two registrations that read the same
  \<^verbatim>\<open>Date.now()\<close> both succeed and both get the id \<open>17\<close>.
\<close>

theorem same_tick_ids_counterexample:
  "fst (register 17 ann []) =
     AuthOk 201 ''Registered successfully'' ''token-17''
       \<lparr>a_id = ''17'', a_email = ''a@x.com'', a_name = JStr ''Ann''\<rparr>
   \<and> fst (register 17 bob (snd (register 17 ann []))) =
     AuthOk 201 ''Registered successfully'' ''token-17''
       \<lparr>a_id = ''17'', a_email = ''b@x.com'', a_name = JStr ''b''\<rparr>"
  by code_simp

subsection \<open>C6: register, then login\<close>

text \<open>
  Claim C6: when \<open>register\<close> succeeds (so the password has length at least 6), a
  \<open>login\<close> with the same email and password on the store it leaves succeeds, returns
  the very token the registration returned, and that token encodes the user's id.
\<close>

theorem register_then_login:
  assumes "register now b us = (AuthOk s m t v, us')"
    and "b_email b' = b_email b" and "b_password b' = b_password b"
  shows "6 \<le> length (str_of (b_password b))
    \<and> login b' us' = (AuthOk 200 ''Login successful'' t v, us')
    \<and> token_user_id (Some t) = Some (a_id v)"
proof -
  note r = register_AuthOkD [OF assms(1)]
  let ?e = "str_of (b_email b)"
  have v: "v = \<lparr>a_id = u_id (new_user now b), a_email = u_email (new_user now b),
                a_name = u_name (new_user now b)\<rparr>"
    using assms(1) by (auto simp: register_def Let_def new_user_def split: if_splits)
  have "map_of us ?e = None"
    using r(4) by (auto simp: users_get_def split: option.splits)
  then have "map_of us' ?e = Some (new_user now b)"
    unfolding r(9) by (simp add: map_add_def)
  then have "users_get us' ?e = Own (new_user now b)"
    by (simp add: users_get_def)
  then have "login b' us' = (AuthOk 200 ''Login successful'' t v, us')"
    using r(1,2) assms(2,3) v r(6)
    by (simp add: login_def Let_def new_user_def)
  moreover have "token_user_id (Some t) = Some (a_id v)"
    unfolding r(6) r(7) by (rule token_user_id_token) (rule toString_no_dash)
  ultimately show ?thesis using r(3) by simp
qed

text \<open>The theorem at the registration of \<open>ann\<close> in the empty store.\<close>

theorem register_then_login_witness:
  "register 17 ann [] = (AuthOk 201 ''Registered successfully'' ''token-17''
       \<lparr>a_id = ''17'', a_email = ''a@x.com'', a_name = JStr ''Ann''\<rparr>, run [Register 17 ann] [])
   \<and> login (ann\<lparr>b_name := None\<rparr>) (run [Register 17 ann] []) =
      (AuthOk 200 ''Login successful'' ''token-17''
        \<lparr>a_id = ''17'', a_email = ''a@x.com'', a_name = JStr ''Ann''\<rparr>, run [Register 17 ann] [])
   \<and> token_user_id (Some ''token-17'') = Some ''17''"
proof -
  have h: "register 17 ann [] = (AuthOk 201 ''Registered successfully'' ''token-17''
       \<lparr>a_id = ''17'', a_email = ''a@x.com'', a_name = JStr ''Ann''\<rparr>, run [Register 17 ann] [])"
    by code_simp
  have e: "b_email (ann\<lparr>b_name := None\<rparr>) = b_email ann"
    and p: "b_password (ann\<lparr>b_name := None\<rparr>) = b_password ann"
    by simp_all
  show ?thesis using h register_then_login [OF h e p] by simp
qed

subsection \<open>C7: the two login failures\<close>




subsection \<open>C8: absent and malformed tokens\<close>

text \<open>
  Claim C8, as amended: \<open>get_me\<close> and \<open>update_profile\<close> answer 401
  \<open>No token provided\<close> exactly when the token is absent (no Authorization header, or
  no non-empty second word in it). Every other token, well-formed or not, is resolved:
  the answer is 404 \<open>User not found\<close> exactly when the part of the token between its
  first and second \<open>-\<close> (\<^verbatim>\<open>undefined\<close> when the token has no \<open>-\<close>) is the id
  of no stored record, and it is never 401.
\<close>

theorem token_resolution_outcomes:
  "(no_token (auth_token h) \<longrightarrow>
      get_me h us = (Error 401 ''No token provided'', us)
      \<and> update_profile h b us = (Error 401 ''No token provided'', us))
   \<and> (\<not> no_token (auth_token h) \<longrightarrow>
      (fst (get_me h us) = Error 404 ''User not found''
         \<longleftrightarrow> (\<forall>(k, u) \<in> set us. Some (u_id u) \<noteq> token_user_id (auth_token h)))
      \<and> (fst (update_profile h b us) = Error 404 ''User not found''
         \<longleftrightarrow> (\<forall>(k, u) \<in> set us. Some (u_id u) \<noteq> token_user_id (auth_token h)))
      \<and> fst (get_me h us) \<noteq> Error 401 m
      \<and> fst (update_profile h b us) \<noteq> Error 401 m)"
proof (cases "no_token (auth_token h)")
  case True
  then show ?thesis by (simp add: get_me_def update_profile_no_token)
next
  case False
  then show ?thesis
    using get_me_not_found_iff [OF False, of us] update_profile_not_found_iff [OF False, of b us]
      get_me_not_401 [OF False, of us m] update_profile_not_401 [OF False, of b us m]
    by (simp add: find_user_None_iff)
qed

text \<open>The theorem at an absent header, at a malformed token and at a token that resolves.\<close>

theorem token_resolution_outcomes_witness:
  "get_me None two_users = (Error 401 ''No token provided'', two_users)
   \<and> update_profile None empty_body two_users = (Error 401 ''No token provided'', two_users)
   \<and> fst (get_me (Some ''Bearer garbage'') two_users) = Error 404 ''User not found''
   \<and> fst (update_profile (Some ''Bearer garbage'') empty_body two_users)
       = Error 404 ''User not found''
   \<and> fst (get_me bearer17 two_users) \<noteq> Error 404 ''User not found''"
proof -
  have h1: "no_token (auth_token None)" by code_simp
  have h2: "\<not> no_token (auth_token (Some ''Bearer garbage''))" by code_simp
  have h3: "\<forall>(k, u) \<in> set two_users.
      Some (u_id u) \<noteq> token_user_id (auth_token (Some ''Bearer garbage''))"
    by code_simp
  have h4: "\<not> no_token (auth_token bearer17)" by code_simp
  have h5: "\<not> (\<forall>(k, u) \<in> set two_users. Some (u_id u) \<noteq> token_user_id (auth_token bearer17))"
    by code_simp
  show ?thesis
    using h1 h2 h3 h4 h5
      token_resolution_outcomes [of None two_users empty_body "[]"]
      token_resolution_outcomes [of "Some ''Bearer garbage''" two_users empty_body "[]"]
      token_resolution_outcomes [of bearer17 two_users empty_body "[]"]
    by blast
qed

text \<open>
  A malformed token is not rejected as 401: the header \<open>Bearer garbage\<close> passes the
  test of line 135 and both handlers answer 404.
\<close>

theorem malformed_token_counterexample:
  "get_me (Some ''Bearer garbage'') two_users = (Error 404 ''User not found'', two_users)
   \<and> update_profile (Some ''Bearer garbage'') empty_body two_users
       = (Error 404 ''User not found'', two_users)"
  by code_simp

subsection \<open>C9: which fields update-profile overwrites\<close>

text \<open>
  Claim C9: after a successful \<open>update_profile\<close> the caller's record, under the key it
  then has, holds for each of \<open>mobileNumber\<close>, \<open>alternativeNumber\<close>,
  \<open>aadharNumber\<close> and \<open>avatar\<close> the value of the request when the key is present
  (\<^verbatim>\<open>null\<close> and the empty string included) and the old value when it is absent;
  the name is overwritten only by a truthy value.
\<close>

theorem update_profile_overwrites:
  assumes "update_profile h b us = (UpdateOk m p, us')"
  shows "\<exists>k u u'.
      find_user us (token_user_id (auth_token h)) = Some (k, u)
      \<and> users_get us'
           (if truthy (b_email b) \<and> str_of (b_email b) \<noteq> k then str_of (b_email b) else k)
          = Own u'
      \<and> p = profile_of u'
      \<and> u_mobileNumber u' =
          (case b_mobileNumber b of None \<Rightarrow> u_mobileNumber u | Some v \<Rightarrow> Some v)
      \<and> u_alternativeNumber u' =
          (case b_alternativeNumber b of None \<Rightarrow> u_alternativeNumber u | Some v \<Rightarrow> Some v)
      \<and> u_aadharNumber u' =
          (case b_aadharNumber b of None \<Rightarrow> u_aadharNumber u | Some v \<Rightarrow> Some v)
      \<and> u_avatar u' = (case b_avatar b of None \<Rightarrow> u_avatar u | Some v \<Rightarrow> Some v)
      \<and> u_name u' =
          (case b_name b of None \<Rightarrow> u_name u
           | Some v \<Rightarrow> if truthy (Some v) then v else u_name u)"
proof -
  have tok: "\<not> no_token (auth_token h)"
    using assms by (auto simp: update_profile_no_token)
  then obtain k u where f: "find_user us (token_user_id (auth_token h)) = Some (k, u)"
    using assms by (cases "find_user us (token_user_id (auth_token h))")
      (auto simp: update_profile_not_found)
  let ?u' = "set_fields b (set_name b u)"
  let ?k' = "if truthy (b_email b) \<and> str_of (b_email b) \<noteq> k then str_of (b_email b) else k"
  from update_profile_found [OF tok f, of b] assms
  have "p = profile_of ?u' \<and> (\<exists>vs. us' = users_set vs ?k' ?u')"
    by (auto simp: rekeys_def split: if_splits)
  then obtain vs where p: "p = profile_of ?u'" and us': "us' = users_set vs ?k' ?u'"
    by blast
  have "map_of us' ?k' = Some ?u'"
    unfolding us' by (simp add: map_of_users_set)
  then have "users_get us' ?k' = Own ?u'"
    by (simp add: users_get_def)
  with f p have "find_user us (token_user_id (auth_token h)) = Some (k, u)
      \<and> users_get us' ?k' = Own ?u' \<and> p = profile_of ?u'
      \<and> u_mobileNumber ?u' =
          (case b_mobileNumber b of None \<Rightarrow> u_mobileNumber u | Some v \<Rightarrow> Some v)
      \<and> u_alternativeNumber ?u' =
          (case b_alternativeNumber b of None \<Rightarrow> u_alternativeNumber u | Some v \<Rightarrow> Some v)
      \<and> u_aadharNumber ?u' =
          (case b_aadharNumber b of None \<Rightarrow> u_aadharNumber u | Some v \<Rightarrow> Some v)
      \<and> u_avatar ?u' = (case b_avatar b of None \<Rightarrow> u_avatar u | Some v \<Rightarrow> Some v)
      \<and> u_name ?u' =
          (case b_name b of None \<Rightarrow> u_name u
           | Some v \<Rightarrow> if truthy (Some v) then v else u_name u)"
    by (simp add: set_fields_values set_name_value split: option.splits)
  then show ?thesis by blast
qed

text \<open>
  The theorem at a request that carries an empty name, an empty \<open>mobileNumber\<close> and a
  \<^verbatim>\<open>null\<close> avatar: the two fields are overwritten, the name is kept.
\<close>

theorem update_profile_overwrites_witness:
  "update_profile bearer17
     (empty_body\<lparr>b_name := Some (JStr []), b_mobileNumber := Some (JStr []),
        b_avatar := Some JNull\<rparr>) two_users
   = (UpdateOk ''Profile updated successfully''
        (profile_of (ann_user\<lparr>u_mobileNumber := Some (JStr []), u_avatar := Some JNull\<rparr>)),
      users_set two_users ''a@x.com''
        (ann_user\<lparr>u_mobileNumber := Some (JStr []), u_avatar := Some JNull\<rparr>))
   \<and> (\<exists>k u (u'::user). find_user two_users (token_user_id (auth_token bearer17)) = Some (k, u)
        \<and> u_mobileNumber u' = Some (JStr []) \<and> u_avatar u' = Some JNull
        \<and> u_alternativeNumber u' = u_alternativeNumber u
        \<and> u_aadharNumber u' = u_aadharNumber u \<and> u_name u' = u_name u)"
proof -
  let ?b = "empty_body\<lparr>b_name := Some (JStr []), b_mobileNumber := Some (JStr []),
        b_avatar := Some JNull\<rparr>"
  let ?u = "ann_user\<lparr>u_mobileNumber := Some (JStr []), u_avatar := Some JNull\<rparr>"
  have h: "update_profile bearer17 ?b two_users
      = (UpdateOk ''Profile updated successfully'' (profile_of ?u),
         users_set two_users ''a@x.com'' ?u)"
    by code_simp
  have "\<exists>k u (u'::user). find_user two_users (token_user_id (auth_token bearer17)) = Some (k, u)
        \<and> u_mobileNumber u' = Some (JStr []) \<and> u_avatar u' = Some JNull
        \<and> u_alternativeNumber u' = u_alternativeNumber u
        \<and> u_aadharNumber u' = u_aadharNumber u \<and> u_name u' = u_name u"
    using update_profile_overwrites [OF h] by (simp add: empty_body_def) blast
  with h show ?thesis by (rule conjI)
qed

subsection \<open>C10: the stored ids never shrink\<close>

text \<open>
  Claim C10, as amended: along every run of requests the multiset of stored ids only
  grows; a successful \<open>register\<close> appends exactly one record, with the id it returns;
  \<open>update_profile\<close> keeps the number of records and the multiset of ids, so every id
  is stored under as many keys after as before, also across a change of key, and under
  exactly one key before and after when the stored ids are distinct; \<open>login\<close>,
  \<open>get_me\<close>, \<open>forgot_password\<close> and \<open>logout\<close> leave the store unchanged.
\<close>

theorem store_ids_never_shrink:
  assumes "wf_store us"
  shows "ids us \<subseteq># ids (run rs us)
    \<and> (register now b us = (AuthOk s m t v, us') \<longrightarrow>
         (\<exists>u. us' = us @ [(str_of (b_email b), u)] \<and> u_id u = a_id v))
    \<and> ids (snd (update_profile h b us)) = ids us
    \<and> length (snd (update_profile h b us)) = length us
    \<and> length (keys_of_id (snd (update_profile h b us)) i) = length (keys_of_id us i)
    \<and> (unique_ids us \<and> find_user us (token_user_id (auth_token h)) = Some (k, u) \<longrightarrow>
         length (keys_of_id us (u_id u)) = 1
         \<and> length (keys_of_id (snd (update_profile h b us)) (u_id u)) = 1)
    \<and> snd (login b us) = us \<and> snd (get_me h us) = us
    \<and> snd (forgot_password b us) = us \<and> snd (logout us) = us"
proof -
  have a: "ids us \<subseteq># ids (run rs us)" using assms by (rule run_ids_mono)
  have b: "register now b us = (AuthOk s m t v, us') \<longrightarrow>
         (\<exists>u. us' = us @ [(str_of (b_email b), u)] \<and> u_id u = a_id v)"
  proof
    assume r: "register now b us = (AuthOk s m t v, us')"
    from register_AuthOkD(7,9) [OF r]
    have "us' = us @ [(str_of (b_email b), new_user now b)] \<and> u_id (new_user now b) = a_id v"
      by (simp add: new_user_def)
    then show "\<exists>u. us' = us @ [(str_of (b_email b), u)] \<and> u_id u = a_id v" by blast
  qed
  have c: "ids (snd (update_profile h b us)) = ids us" using assms by (rule update_profile_ids)
  have d: "length (snd (update_profile h b us)) = length us"
    using assms by (rule update_profile_length)
  have e: "length (keys_of_id (snd (update_profile h b us)) i) = length (keys_of_id us i)"
    by (simp add: length_keys_of_id c)
  have f: "unique_ids us \<and> find_user us (token_user_id (auth_token h)) = Some (k, u) \<longrightarrow>
         length (keys_of_id us (u_id u)) = 1
         \<and> length (keys_of_id (snd (update_profile h b us)) (u_id u)) = 1"
  proof
    assume p: "unique_ids us \<and> find_user us (token_user_id (auth_token h)) = Some (k, u)"
    then have mem: "(k, u) \<in> set us" by (auto dest: find_user_SomeD)
    then have "u_id u \<in> set (map (\<lambda>p. u_id (snd p)) us)" by force
    moreover have "distinct (map (\<lambda>p. u_id (snd p)) us)"
      using p by (simp add: unique_ids_def)
    ultimately have "count (ids us) (u_id u) = 1"
      by (simp add: ids_def distinct_count_atmost_1)
    then show "length (keys_of_id us (u_id u)) = 1
         \<and> length (keys_of_id (snd (update_profile h b us)) (u_id u)) = 1"
      by (simp add: length_keys_of_id c)
  qed
  show ?thesis
    using a b c d e f
    by (simp add: login_store get_me_store forgot_password_store logout_store)
qed

text \<open>The theorem at \<open>two_users\<close>, for the registration of \<open>carol\<close> and a change of key.\<close>

theorem store_ids_never_shrink_witness:
  "wf_store two_users
   \<and> ids two_users \<subseteq># ids (run [Register 19 carol, UpdateProfile bearer17 ann] two_users)
   \<and> (\<exists>u. snd (register 19 carol two_users) = two_users @ [(''c@x.com'', u)] \<and> u_id u = ''19'')
   \<and> ids (snd (update_profile bearer17 carol two_users)) = ids two_users
   \<and> map fst (snd (update_profile bearer17 carol two_users)) = [''b@x.com'', ''c@x.com'']
   \<and> length (keys_of_id two_users ''17'') = 1
   \<and> length (keys_of_id (snd (update_profile bearer17 carol two_users)) ''17'') = 1
   \<and> snd (login carol two_users) = two_users"
proof -
  let ?v = "\<lparr>a_id = ''19'', a_email = ''c@x.com'', a_name = JStr ''c''\<rparr>"
  let ?us' = "snd (register 19 carol two_users)"
  have h1: "wf_store two_users" by code_simp
  have r: "fst (register 19 carol two_users) = AuthOk 201 ''Registered successfully'' ''token-19'' ?v"
    by code_simp
  then have h2: "register 19 carol two_users =
      (AuthOk 201 ''Registered successfully'' ''token-19'' ?v, ?us')"
    by (simp add: prod_eq_iff)
  have h3: "unique_ids two_users
      \<and> find_user two_users (token_user_id (auth_token bearer17)) = Some (''a@x.com'', ann_user)"
    by code_simp
  have e: "str_of (b_email carol) = ''c@x.com''" by (simp add: carol_def empty_body_def)
  have i: "u_id ann_user = ''17''" by (simp add: ann_user_def)
  have k: "map fst (snd (update_profile bearer17 carol two_users)) = [''b@x.com'', ''c@x.com'']"
    by code_simp
  note t = store_ids_never_shrink [OF h1,
      of "[Register 19 carol, UpdateProfile bearer17 ann]" 19 carol 201
        "''Registered successfully''" "''token-19''" ?v ?us' bearer17 "''17''"
        "''a@x.com''" ann_user]
  from t h2 h3 have "ids two_users \<subseteq># ids (run [Register 19 carol, UpdateProfile bearer17 ann] two_users)
    \<and> (\<exists>u. ?us' = two_users @ [(str_of (b_email carol), u)] \<and> u_id u = a_id ?v)
    \<and> ids (snd (update_profile bearer17 carol two_users)) = ids two_users
    \<and> length (keys_of_id two_users (u_id ann_user)) = 1
    \<and> length (keys_of_id (snd (update_profile bearer17 carol two_users)) (u_id ann_user)) = 1
    \<and> snd (login carol two_users) = two_users"
    by blast
  with h1 k show ?thesis unfolding e i by simp
qed

text \<open>
  ``Exactly one key'' fails where two registrations share a clock reading: in
  \<open>same_tick\<close> the caller's id is stored under two keys before the change of email and
  under two keys after it.
\<close>

theorem caller_id_two_keys_counterexample:
  "keys_of_id same_tick ''17'' = [''a@x.com'', ''b@x.com'']
   \<and> fst (update_profile bearer17 (empty_body\<lparr>b_email := Some (JStr ''c@x.com'')\<rparr>) same_tick)
   = UpdateOk ''Profile updated successfully''
       \<lparr>p_id = ''17'', p_email = ''a@x.com'', p_name = JStr ''Ann'', p_mobileNumber = JStr [],
        p_alternativeNumber = JStr [], p_aadharNumber = JStr [], p_avatar = JNull\<rparr>
   \<and> keys_of_id (snd (update_profile bearer17 (empty_body\<lparr>b_email := Some (JStr ''c@x.com'')\<rparr>)
        same_tick)) ''17'' = [''b@x.com'', ''c@x.com'']"
  by code_simp

end
